theory Spec2Isabelle
  imports Main "HOL-Library.Sublist"
begin

section \<open>JSON values and their serialisation\<close>

text \<open>
  Tool arguments and tool results are JSON-serialisable Python values. A Python \<open>dict\<close>
  keeps its insertion order and \<open>json.dumps\<close> writes the entries in that order, so an
  object is an association list. Floating-point numbers are left out of the model, and
  a character of a string is a code point below 256.
\<close>

datatype json =
    JNull
  | JBool bool
  | JInt int
  | JString string
  | JArray "json list"
  | JObject "(string \<times> json) list"

type_synonym args = "(string \<times> json) list"

fun show_nat :: "nat \<Rightarrow> string" where
  "show_nat n = (if n < 10 then [''0123456789'' ! n]
                 else show_nat (n div 10) @ [''0123456789'' ! (n mod 10)])"

declare show_nat.simps [simp del]

definition show_int :: "int \<Rightarrow> string" where
  "show_int i = (if i < 0 then ''-'' @ show_nat (nat (- i)) else show_nat (nat i))"

definition hex4 :: "nat \<Rightarrow> string" where
  "hex4 n = [''0123456789abcdef'' ! (n div 4096 mod 16), ''0123456789abcdef'' ! (n div 256 mod 16),
             ''0123456789abcdef'' ! (n div 16 mod 16), ''0123456789abcdef'' ! (n mod 16)]"

text \<open>
  \<open>json.dumps\<close> is called with its defaults: \<open>ensure_ascii=True\<close> and the separators
  \<open>", "\<close> and \<open>": "\<close>. Every character outside the printable ASCII range is written as
  a \<open>\uXXXX\<close> escape; the quote is \<open>CHR 0x22\<close> and the backslash \<open>CHR 0x5C\<close>.
\<close>

definition escape_char :: "char \<Rightarrow> string" where
  "escape_char c =
     (if c = CHR 0x5C then [CHR 0x5C, CHR 0x5C]
      else if c = CHR 0x22 then [CHR 0x5C, CHR 0x22]
      else if c = CHR 0x08 then [CHR 0x5C, CHR ''b'']
      else if c = CHR 0x0C then [CHR 0x5C, CHR ''f'']
      else if c = CHR 0x0A then [CHR 0x5C, CHR ''n'']
      else if c = CHR 0x0D then [CHR 0x5C, CHR ''r'']
      else if c = CHR 0x09 then [CHR 0x5C, CHR ''t'']
      else if 32 \<le> (of_char c :: nat) \<and> (of_char c :: nat) \<le> 126 then [c]
      else [CHR 0x5C, CHR ''u''] @ hex4 (of_char c))"

definition encode_basestring_ascii :: "string \<Rightarrow> string" where
  "encode_basestring_ascii s = [CHR 0x22] @ concat (map escape_char s) @ [CHR 0x22]"

fun join :: "string \<Rightarrow> string list \<Rightarrow> string" where
  "join sep [] = []"
| "join sep [x] = x"
| "join sep (x # y # ys) = x @ sep @ join sep (y # ys)"

fun json_dumps :: "json \<Rightarrow> string" where
  "json_dumps JNull = ''null''"
| "json_dumps (JBool b) = (if b then ''true'' else ''false'')"
| "json_dumps (JInt i) = show_int i"
| "json_dumps (JString s) = encode_basestring_ascii s"
| "json_dumps (JArray xs) = ''['' @ join '', '' (map json_dumps xs) @ '']''"
| "json_dumps (JObject kvs) =
     ''{'' @ join '', '' (map (\<lambda>(k, v). encode_basestring_ascii k @ '': '' @ json_dumps v) kvs) @ ''}''"

section \<open>Data model\<close>

text \<open>
  A tool call is the dictionary \<open>{"name": ..., "args": ..., "id": ...}\<close> that the
  assistant message carries; \<open>ConstraintSchema\<close> is built with the three keyword
  arguments \<open>type\<close>, \<open>description\<close> and \<open>source\<close>.
\<close>

record tool_call =
  tc_name :: string
  tc_args :: args
  tc_id :: string

record ConstraintSchema =
  ctype :: string
  description :: string
  source :: string

text \<open>
  The messages are \<open>HumanMessage id content\<close>, \<open>AIMessage id content tool_calls\<close>,
  \<open>ToolMessage content name tool_call_id\<close> and \<open>RemoveMessage id\<close>. The id of a
  message is optional; the node builds its \<open>ToolMessage\<close>s without one. Only an
  assistant message has the attribute \<open>tool_calls\<close>.
\<close>

datatype message =
    HumanMessage "string option" string
  | AIMessage "string option" string "tool_call list"
  | ToolMessage string string string
  | RemoveMessage "string option"

datatype error =
    KeyError string
  | AttributeError string
  | ToolException string
  | OperatorCancellation

fun message_id :: "message \<Rightarrow> string option" where
  "message_id (HumanMessage i c) = i"
| "message_id (AIMessage i c tcs) = i"
| "message_id (ToolMessage c n i) = None"
| "message_id (RemoveMessage i) = i"

fun tool_calls :: "message \<Rightarrow> error + tool_call list" where
  "tool_calls (AIMessage i c tcs) = Inr tcs"
| "tool_calls m = Inl (AttributeError ''tool_calls'')"

fun is_ToolMessage :: "message \<Rightarrow> bool" where
  "is_ToolMessage (ToolMessage c n i) = True"
| "is_ToolMessage m = False"

record state =
  messages :: "message list"
  constraints :: "ConstraintSchema list"

text \<open>
  A tool of the catalog has a name and an \<open>ainvoke\<close> that either returns a value or
  raises (\<open>Inl\<close> carries the exception's text).
\<close>

record tool =
  tool_name :: string
  ainvoke :: "args \<Rightarrow> string + json"

datatype update_value =
    Messages "message list"
  | Constraints "ConstraintSchema list"

record Command =
  goto :: string
  update :: "string \<rightharpoonup> update_value"

section \<open>The operator and the trace of effects\<close>

text \<open>
  The console, the confirmation prompt of \<open>UserInteractive\<close> and the tools act on the
  outside world. The world holds the answers the operator is still going to give, in
  order, and the trace of what the node has done so far. An operator who gives no
  further answer has interrupted the interaction: the prompt raises.
\<close>

datatype event =
    PrintPanelCall tool_call
  | PrintPanelResult json
  | Prompt string bool
  | Ainvoke string args

record world =
  answers :: "bool list"
  trace :: "event list"

definition emit :: "event \<Rightarrow> world \<Rightarrow> world" where
  "emit e w = w\<lparr>trace := trace w @ [e]\<rparr>"

definition prompt_for_confirmation :: "string \<Rightarrow> bool \<Rightarrow> world \<Rightarrow> (error + bool) \<times> world" where
  "prompt_for_confirmation msg dflt w =
     (case answers w of
        [] \<Rightarrow> (Inl OperatorCancellation, emit (Prompt msg dflt) w)
      | a # as \<Rightarrow> (Inr a, emit (Prompt msg dflt) (w\<lparr>answers := as\<rparr>)))"

definition invoke_tool :: "tool \<Rightarrow> args \<Rightarrow> world \<Rightarrow> (error + json) \<times> world" where
  "invoke_tool t a w =
     (case ainvoke t a of
        Inl e \<Rightarrow> (Inl (ToolException e), emit (Ainvoke (tool_name t) a) w)
      | Inr r \<Rightarrow> (Inr r, emit (Ainvoke (tool_name t) a) w))"

section \<open>The tool node\<close>

definition declined_result :: json where
  "declined_result = JObject [(''result'', JString ''User declined tool call.'')]"

definition discarded_result :: json where
  "discarded_result = JObject [(''result'', JString ''User did not find the results useful for the task.'')]"

text \<open>
  \<open>tools_by_name = {tool.name: tool for tool in tools}\<close>: a later tool of the same
  name replaces an earlier one.
\<close>

definition build_tools_by_name :: "tool list \<Rightarrow> (string \<rightharpoonup> tool)" where
  "build_tools_by_name tools = foldl (\<lambda>m t. m(tool_name t \<mapsto> t)) Map.empty tools"

text \<open>
  The body of \<open>for tool_call in message.tool_calls\<close>, with the accumulator
  \<open>outputs\<close>. A declined call returns from the whole node; an exception of the prompt,
  of the dictionary lookup or of the tool leaves the node, since the source has no
  handler.
\<close>

fun tool_loop :: "(string \<rightharpoonup> tool) \<Rightarrow> message \<Rightarrow> tool_call list \<Rightarrow> message list \<Rightarrow> world
    \<Rightarrow> (error + Command) \<times> world" where
  "tool_loop tools_by_name message [] outputs w =
     (Inr \<lparr>goto = ''assistant_node'', update = [''messages'' \<mapsto> Messages outputs]\<rparr>, w)"
| "tool_loop tools_by_name message (tool_call # rest) outputs w =
     (let w1 = emit (PrintPanelCall tool_call) w in
      case prompt_for_confirmation (''Use '' @ tc_name tool_call) True w1 of
        (Inl e, w2) \<Rightarrow> (Inl e, w2)
      | (Inr run_tool, w2) \<Rightarrow>
          if run_tool then
            (case tools_by_name (tc_name tool_call) of
               None \<Rightarrow> (Inl (KeyError (tc_name tool_call)), w2)
             | Some t \<Rightarrow>
                 (case invoke_tool t (tc_args tool_call) w2 of
                    (Inl e, w3) \<Rightarrow> (Inl e, w3)
                  | (Inr tool_result, w3) \<Rightarrow>
                      (let w4 = emit (PrintPanelResult tool_result) w3 in
                       case prompt_for_confirmation ''Add this result to the response?'' True w4 of
                         (Inl e, w5) \<Rightarrow> (Inl e, w5)
                       | (Inr add_result, w5) \<Rightarrow>
                           (let tool_result = (if \<not> add_result then discarded_result else tool_result)
                            in tool_loop tools_by_name message rest
                                 (outputs @ [ToolMessage (json_dumps tool_result)
                                               (tc_name tool_call) (tc_id tool_call)]) w5))))
          else
            (let tool_result = declined_result;
                 constraint = \<lparr>ctype = ''avoid'',
                               description = ''Do not use '' @ tc_name tool_call
                                 @ '' with arguments: '' @ json_dumps (JObject (tc_args tool_call)),
                               source = ''declined_tool''\<rparr>
             in (Inr \<lparr>goto = ''assistant_node'',
                      update = [''messages'' \<mapsto> Messages [RemoveMessage (message_id message)],
                                ''constraints'' \<mapsto> Constraints [constraint]]\<rparr>, w2)))"

text \<open>
  \<open>ToolNode.__call__\<close>. The helper \<open>get_last_message\<close> of \<open>byte.core.utils\<close> is not
  part of the sources at hand: it is a parameter, the function that gives the message
  under arbitration. The catalog \<open>runtime.context.tools\<close> is the list \<open>tools\<close>.
\<close>

definition ToolNode_call :: "(message list \<Rightarrow> message) \<Rightarrow> tool list \<Rightarrow> state \<Rightarrow> world
    \<Rightarrow> (error + Command) \<times> world" where
  "ToolNode_call get_last_message tools st w =
     (let message = get_last_message (messages st);
          outputs = []
      in if tools = [] then
           (Inr \<lparr>goto = ''assistant_node'', update = [''messages'' \<mapsto> Messages []]\<rparr>, w)
         else
           (let tools_by_name = build_tools_by_name tools
            in case tool_calls message of
                 Inl e \<Rightarrow> (Inl e, w)
               | Inr tcs \<Rightarrow> tool_loop tools_by_name message tcs outputs w))"

section \<open>Reducers\<close>

definition replace_list :: "'a list option \<Rightarrow> 'a list \<Rightarrow> 'a list" where
  "replace_list left right = right"

definition add_constraints :: "'a list option \<Rightarrow> 'a list \<Rightarrow> 'a list" where
  "add_constraints left right = (case left of None \<Rightarrow> right | Some l \<Rightarrow> l @ right)"

section \<open>Reading a routing decision\<close>

definition patch_messages :: "Command \<Rightarrow> message list" where
  "patch_messages c = (case update c ''messages'' of Some (Messages ms) \<Rightarrow> ms | _ \<Rightarrow> [])"

definition patch_constraints :: "Command \<Rightarrow> ConstraintSchema list" where
  "patch_constraints c = (case update c ''constraints'' of Some (Constraints cs) \<Rightarrow> cs | _ \<Rightarrow> [])"

definition invocations :: "event list \<Rightarrow> (string \<times> args) list" where
  "invocations tr = concat (map (\<lambda>e. case e of Ainvoke n a \<Rightarrow> [(n, a)] | _ \<Rightarrow> []) tr)"

definition prompts :: "event list \<Rightarrow> string list" where
  "prompts tr = concat (map (\<lambda>e. case e of Prompt m d \<Rightarrow> [m] | _ \<Rightarrow> []) tr)"

declare tool_loop.simps [simp del]

section \<open>Vocabulary of the statements\<close>

text \<open>
  A call runs when its name is in the catalog and its invocation returns;
  \<open>raw_result\<close> is the value returned then. An operator who accepts a call and
  answers \<open>keep\<close> at its review gives the two answers \<open>[True, keep]\<close>;
  \<open>accept_script\<close> strings these together for a run of calls. \<open>result_message\<close> is
  the \<open>ToolMessage\<close> the loop appends for an accepted call and \<open>accepted_events\<close>
  the effects of that iteration.
\<close>

definition runs_ok :: "(string \<rightharpoonup> tool) \<Rightarrow> tool_call \<Rightarrow> bool" where
  "runs_ok tbn tc =
     (case tbn (tc_name tc) of
        None \<Rightarrow> False
      | Some t \<Rightarrow> (case ainvoke t (tc_args tc) of Inl e \<Rightarrow> False | Inr r \<Rightarrow> True))"

definition raw_result :: "(string \<rightharpoonup> tool) \<Rightarrow> tool_call \<Rightarrow> json" where
  "raw_result tbn tc =
     (case tbn (tc_name tc) of
        None \<Rightarrow> JNull
      | Some t \<Rightarrow> (case ainvoke t (tc_args tc) of Inl e \<Rightarrow> JNull | Inr r \<Rightarrow> r))"

definition accept_script :: "bool list \<Rightarrow> bool list" where
  "accept_script keeps = concat (map (\<lambda>keep. [True, keep]) keeps)"

definition result_message :: "(string \<rightharpoonup> tool) \<Rightarrow> tool_call \<Rightarrow> bool \<Rightarrow> message" where
  "result_message tbn tc keep =
     ToolMessage (json_dumps (if keep then raw_result tbn tc else discarded_result))
       (tc_name tc) (tc_id tc)"

definition accepted_events :: "(string \<rightharpoonup> tool) \<Rightarrow> tool_call \<Rightarrow> event list" where
  "accepted_events tbn tc =
     [PrintPanelCall tc, Prompt (''Use '' @ tc_name tc) True,
      Ainvoke (case tbn (tc_name tc) of None \<Rightarrow> [] | Some t \<Rightarrow> tool_name t) (tc_args tc),
      PrintPanelResult (raw_result tbn tc), Prompt ''Add this result to the response?'' True]"

section \<open>Reading a serialisation back\<close>

text \<open>
  What is needed to show that \<open>json.dumps\<close> loses nothing: the kind of a value and
  the kind its first character announces, and the shapes an escape sequence can take
  after the backslash.
\<close>

fun json_kind :: "json \<Rightarrow> nat" where
  "json_kind JNull = 0"
| "json_kind (JBool b) = 1"
| "json_kind (JInt i) = 2"
| "json_kind (JString s) = 3"
| "json_kind (JArray xs) = 4"
| "json_kind (JObject kvs) = 5"

definition char_kind :: "char \<Rightarrow> nat" where
  "char_kind c =
     (if c = CHR ''n'' then 0
      else if c = CHR ''t'' \<or> c = CHR ''f'' then 1
      else if c \<in> set ''-0123456789'' then 2
      else if c = CHR 0x22 then 3
      else if c = CHR ''['' then 4
      else if c = CHR ''{'' then 5
      else 6)"

definition escape_tail :: "char \<Rightarrow> char \<Rightarrow> string \<Rightarrow> bool" where
  "escape_tail c e r \<longleftrightarrow>
     (e = CHR 0x5C \<and> r = [] \<and> c = CHR 0x5C)
     \<or> (e = CHR 0x22 \<and> r = [] \<and> c = CHR 0x22)
     \<or> (e = CHR ''b'' \<and> r = [] \<and> c = CHR 0x08)
     \<or> (e = CHR ''f'' \<and> r = [] \<and> c = CHR 0x0C)
     \<or> (e = CHR ''n'' \<and> r = [] \<and> c = CHR 0x0A)
     \<or> (e = CHR ''r'' \<and> r = [] \<and> c = CHR 0x0D)
     \<or> (e = CHR ''t'' \<and> r = [] \<and> c = CHR 0x09)
     \<or> (e = CHR ''u'' \<and> r = hex4 (of_char c))"

section \<open>A sample catalog and conversation\<close>

text \<open>
  A search call and an edit call, with a tool for each, and a tool whose invocation
  raises; a resize call, and the same call with its two arguments in the other order;
  a conversation whose last message is the assistant message with the given
  calls; an operator with a script of answers and nothing done yet.
\<close>

definition search_tool :: tool where
  "search_tool = \<lparr>tool_name = ''search'', ainvoke = (\<lambda>a. Inr (JString ''found x''))\<rparr>"

definition edit_tool :: tool where
  "edit_tool = \<lparr>tool_name = ''edit'', ainvoke = (\<lambda>a. Inr (JString ''edited''))\<rparr>"

definition broken_tool :: tool where
  "broken_tool = \<lparr>tool_name = ''broken'', ainvoke = (\<lambda>a. Inl ''boom'')\<rparr>"

definition search_call :: tool_call where
  "search_call = \<lparr>tc_name = ''search'', tc_args = [(''q'', JString ''x'')], tc_id = ''1''\<rparr>"

definition edit_call :: tool_call where
  "edit_call = \<lparr>tc_name = ''edit'', tc_args = [(''path'', JString ''a.py'')], tc_id = ''2''\<rparr>"

definition broken_call :: tool_call where
  "broken_call = \<lparr>tc_name = ''broken'', tc_args = [], tc_id = ''0''\<rparr>"

definition resize_call :: tool_call where
  "resize_call = \<lparr>tc_name = ''resize'',
                   tc_args = [(''width'', JInt 5), (''height'', JInt 7)], tc_id = ''3''\<rparr>"

definition resize_call_reordered :: tool_call where
  "resize_call_reordered = \<lparr>tc_name = ''resize'',
                   tc_args = [(''height'', JInt 7), (''width'', JInt 5)], tc_id = ''4''\<rparr>"

definition state_with :: "tool_call list \<Rightarrow> state" where
  "state_with calls =
     \<lparr>messages = [HumanMessage (Some ''h1'') ''fix the bug'', AIMessage (Some ''a1'') [] calls],
      constraints = []\<rparr>"

definition operator :: "bool list \<Rightarrow> world" where
  "operator script = \<lparr>answers = script, trace = []\<rparr>"

section \<open>Merge rules\<close>

text \<open>
  C7. The accumulate rule appends the incoming list after the current one; an
  uninitialised (\<open>None\<close>) or empty current list gives the incoming list; and merging
  \<open>Y\<close> and then \<open>Z\<close> is merging \<open>Y @ Z\<close>.
\<close>

theorem add_constraints_append:
  "add_constraints (Some xs) ys = xs @ ys
   \<and> add_constraints None ys = ys
   \<and> add_constraints (Some []) ys = ys
   \<and> add_constraints (Some (add_constraints X Y)) Z = add_constraints X (Y @ Z)"
  by (simp add: add_constraints_def split: option.split)

text \<open>
  C8. The replace rule returns the incoming value whatever the current one is, so
  applying it a second time with the same incoming value gives that value again.
\<close>

theorem replace_list_incoming:
  "replace_list cur Y = Y \<and> replace_list (Some (replace_list cur Y)) Y = Y"
  by (simp add: replace_list_def)

text \<open>
  C9. Under the accumulate rule the constraints already present are a prefix of the
  merged list, in their order, and the incoming ones follow them unchanged.
\<close>

theorem add_constraints_append_only:
  "prefix xs (add_constraints (Some xs) ys)
   \<and> take (length xs) (add_constraints (Some xs) ys) = xs
   \<and> drop (length xs) (add_constraints (Some xs) ys) = ys"
  by (simp add: add_constraints_def)

section \<open>Empty catalog\<close>

text \<open>
  C4. With an empty tool catalog the node returns at once: it goes to the assistant
  node with a patch holding no message and no constraint, and the world is unchanged
  (no prompt, no tool invocation), whatever the state and its last message are.
\<close>

theorem empty_catalog_passthrough:
  "ToolNode_call get_last_message [] st w =
     (Inr \<lparr>goto = ''assistant_node'', update = [''messages'' \<mapsto> Messages []]\<rparr>, w)
   \<and> patch_messages (projr (fst (ToolNode_call get_last_message [] st w))) = []
   \<and> patch_constraints (projr (fst (ToolNode_call get_last_message [] st w))) = []
   \<and> update (projr (fst (ToolNode_call get_last_message [] st w))) ''constraints'' = None
   \<and> snd (ToolNode_call get_last_message [] st w) = w"
  by (simp add: ToolNode_call_def patch_messages_def patch_constraints_def)

section \<open>The loop, one iteration at a time\<close>

lemma runs_okE:
  assumes "runs_ok tbn tc"
  obtains t r where "tbn (tc_name tc) = Some t" and "ainvoke t (tc_args tc) = Inr r"
  using assms by (auto simp: runs_ok_def split: option.splits sum.splits)

lemma tool_loop_accepted_step:
  assumes "runs_ok tbn tc" and "answers w = True # keep # later"
  shows "tool_loop tbn m (tc # rest) outs w =
         tool_loop tbn m rest (outs @ [result_message tbn tc keep])
           (w\<lparr>answers := later, trace := trace w @ accepted_events tbn tc\<rparr>)"
proof -
  from assms(1) obtain t r where t: "tbn (tc_name tc) = Some t"
    and r: "ainvoke t (tc_args tc) = Inr r" by (rule runs_okE)
  have raw: "raw_result tbn tc = r" by (simp add: raw_result_def t r)
  show ?thesis
    by (subst tool_loop.simps(2))
       (simp add: t r raw assms(2) result_message_def accepted_events_def
          prompt_for_confirmation_def invoke_tool_def emit_def)
qed

lemma tool_loop_declined_step:
  assumes "answers w = False # later"
  shows "tool_loop tbn m (tc # rest) outs w =
         (Inr \<lparr>goto = ''assistant_node'',
               update = [''messages'' \<mapsto> Messages [RemoveMessage (message_id m)],
                         ''constraints'' \<mapsto> Constraints
                            [\<lparr>ctype = ''avoid'',
                              description = ''Do not use '' @ tc_name tc @ '' with arguments: ''
                                @ json_dumps (JObject (tc_args tc)),
                              source = ''declined_tool''\<rparr>]]\<rparr>,
          w\<lparr>answers := later,
            trace := trace w @ [PrintPanelCall tc, Prompt (''Use '' @ tc_name tc) True]\<rparr>)"
  by (subst tool_loop.simps(2))
     (simp add: assms prompt_for_confirmation_def emit_def Let_def)

lemma tool_loop_raising_step:
  assumes "answers w = True # later" and "tbn (tc_name tc) = Some t"
    and "ainvoke t (tc_args tc) = Inl e"
  shows "tool_loop tbn m (tc # rest) outs w =
         (Inl (ToolException e),
          w\<lparr>answers := later,
            trace := trace w @ [PrintPanelCall tc, Prompt (''Use '' @ tc_name tc) True,
                                Ainvoke (tool_name t) (tc_args tc)]\<rparr>)"
  by (subst tool_loop.simps(2))
     (simp add: assms prompt_for_confirmation_def invoke_tool_def emit_def)

lemma tool_loop_accepted_prefix:
  assumes "list_all (runs_ok tbn) pre" and "length keeps = length pre"
    and "answers w = accept_script keeps @ later"
  shows "tool_loop tbn m (pre @ post) outs w =
         tool_loop tbn m post (outs @ map2 (result_message tbn) pre keeps)
           (w\<lparr>answers := later, trace := trace w @ concat (map (accepted_events tbn) pre)\<rparr>)"
  using assms
proof (induction pre arbitrary: keeps outs w)
  case Nil
  then show ?case by (cases w) (simp add: accept_script_def)
next
  case (Cons tc pre)
  then obtain keep keeps' where ks: "keeps = keep # keeps'" by (cases keeps) auto
  let ?w = "w\<lparr>answers := accept_script keeps' @ later, trace := trace w @ accepted_events tbn tc\<rparr>"
  have ans: "answers w = True # keep # (accept_script keeps' @ later)"
    using Cons.prems(3) ks by (simp add: accept_script_def)
  have ok: "runs_ok tbn tc" using Cons.prems(1) by simp
  have step: "tool_loop tbn m ((tc # pre) @ post) outs w =
              tool_loop tbn m (pre @ post) (outs @ [result_message tbn tc keep]) ?w"
    using tool_loop_accepted_step [OF ok ans] by simp
  have ih: "tool_loop tbn m (pre @ post) (outs @ [result_message tbn tc keep]) ?w =
            tool_loop tbn m post ((outs @ [result_message tbn tc keep]) @ map2 (result_message tbn) pre keeps')
              (?w\<lparr>answers := later, trace := trace ?w @ concat (map (accepted_events tbn) pre)\<rparr>)"
    using Cons.prems ks by (intro Cons.IH) auto
  show ?case using step ih ks by simp
qed

section \<open>The catalog, the trace and the placeholder\<close>

lemma build_tools_by_name_snoc:
  "build_tools_by_name (tools @ [t]) = (build_tools_by_name tools)(tool_name t \<mapsto> t)"
  by (simp add: build_tools_by_name_def)

lemma build_tools_by_name_name:
  "build_tools_by_name tools n = Some t \<Longrightarrow> tool_name t = n"
proof (induction tools rule: rev_induct)
  case Nil
  then show ?case by (simp add: build_tools_by_name_def)
next
  case (snoc x xs)
  show ?case
  proof (cases "n = tool_name x")
    case True
    then show ?thesis using snoc.prems by (simp add: build_tools_by_name_snoc)
  next
    case False
    then have "build_tools_by_name xs n = Some t"
      using snoc.prems by (simp add: build_tools_by_name_snoc)
    then show ?thesis by (rule snoc.IH)
  qed
qed

lemma invocations_append: "invocations (xs @ ys) = invocations xs @ invocations ys"
  by (simp add: invocations_def)

lemma prompts_append: "prompts (xs @ ys) = prompts xs @ prompts ys"
  by (simp add: prompts_def)

lemma invocations_accepted:
  "list_all (runs_ok (build_tools_by_name tools)) pre \<Longrightarrow>
   invocations (concat (map (accepted_events (build_tools_by_name tools)) pre)) =
   map (\<lambda>tc. (tc_name tc, tc_args tc)) pre"
proof (induction pre)
  case Nil
  then show ?case by (simp add: invocations_def)
next
  case (Cons tc pre)
  from Cons.prems have "runs_ok (build_tools_by_name tools) tc" by simp
  then obtain t r where t: "build_tools_by_name tools (tc_name tc) = Some t"
    by (rule runs_okE)
  have "tool_name t = tc_name tc" using t by (rule build_tools_by_name_name)
  then have "invocations (accepted_events (build_tools_by_name tools) tc) = [(tc_name tc, tc_args tc)]"
    by (simp add: invocations_def accepted_events_def t)
  moreover have "invocations (concat (map (accepted_events (build_tools_by_name tools)) pre)) =
      map (\<lambda>tc. (tc_name tc, tc_args tc)) pre"
    using Cons.prems by (intro Cons.IH) simp
  ultimately show ?case by (simp add: invocations_append)
qed

lemma prompts_accepted:
  "length (prompts (concat (map (accepted_events tbn) calls))) = 2 * length calls"
  by (induction calls) (simp_all add: prompts_def accepted_events_def)

lemma json_dumps_discarded_result:
  "json_dumps discarded_result =
     ''{'' @ [CHR 0x22] @ ''result'' @ [CHR 0x22] @ '': '' @ [CHR 0x22]
       @ ''User did not find the results useful for the task.'' @ [CHR 0x22] @ ''}''"
  by (simp add: discarded_result_def encode_basestring_ascii_def escape_char_def)

section \<open>Whole runs of the node\<close>

lemma ToolNode_call_loop:
  assumes "tools \<noteq> []" and "get_last_message (messages st) = AIMessage mid c calls"
  shows "ToolNode_call get_last_message tools st w =
         tool_loop (build_tools_by_name tools) (AIMessage mid c calls) calls [] w"
  using assms by (simp add: ToolNode_call_def)

lemma accept_script_all_kept: "accept_script (replicate n True) = replicate (2 * n) True"
  by (induction n) (simp_all add: accept_script_def)

lemma map2_replicate_True:
  "map2 (result_message tbn) calls (replicate (length calls) True) =
   map (\<lambda>tc. ToolMessage (json_dumps (raw_result tbn tc)) (tc_name tc) (tc_id tc)) calls"
  by (induction calls) (simp_all add: result_message_def)

lemma filter_ToolMessage_map2:
  "filter is_ToolMessage (map2 (result_message tbn) calls keeps) =
   map2 (result_message tbn) calls keeps"
  by (induction calls arbitrary: keeps) (auto simp: result_message_def split: list.splits prod.splits simp: zip_Cons1)

lemma ToolNode_call_all_accepted:
  assumes "tools \<noteq> []" and "get_last_message (messages st) = AIMessage mid c calls"
    and "list_all (runs_ok (build_tools_by_name tools)) calls"
    and "length keeps = length calls"
    and "answers w = accept_script keeps @ later"
  shows "ToolNode_call get_last_message tools st w =
         (Inr \<lparr>goto = ''assistant_node'',
               update = [''messages'' \<mapsto>
                 Messages (map2 (result_message (build_tools_by_name tools)) calls keeps)]\<rparr>,
          w\<lparr>answers := later,
            trace := trace w @ concat (map (accepted_events (build_tools_by_name tools)) calls)\<rparr>)"
proof -
  have "tool_loop (build_tools_by_name tools) (AIMessage mid c calls) (calls @ []) [] w =
        tool_loop (build_tools_by_name tools) (AIMessage mid c calls) []
          ([] @ map2 (result_message (build_tools_by_name tools)) calls keeps)
          (w\<lparr>answers := later,
             trace := trace w @ concat (map (accepted_events (build_tools_by_name tools)) calls)\<rparr>)"
    using assms(3-5) by (rule tool_loop_accepted_prefix)
  then show ?thesis
    using ToolNode_call_loop [where get_last_message = get_last_message and st = st, OF assms(1,2)] by (simp add: tool_loop.simps(1))
qed

lemma ToolNode_call_declined:
  assumes "tools \<noteq> []" and "get_last_message (messages st) = AIMessage mid c calls"
    and "1 \<le> k" and "k \<le> length calls"
    and "list_all (runs_ok (build_tools_by_name tools)) (take (k - 1) calls)"
    and "length keeps = k - 1"
    and "answers w = accept_script keeps @ False # later"
  shows "ToolNode_call get_last_message tools st w =
         (Inr \<lparr>goto = ''assistant_node'',
               update = [''messages'' \<mapsto> Messages [RemoveMessage mid],
                         ''constraints'' \<mapsto> Constraints
                            [\<lparr>ctype = ''avoid'',
                              description = ''Do not use '' @ tc_name (calls ! (k - 1))
                                @ '' with arguments: ''
                                @ json_dumps (JObject (tc_args (calls ! (k - 1)))),
                              source = ''declined_tool''\<rparr>]]\<rparr>,
          w\<lparr>answers := later,
            trace := trace w
              @ concat (map (accepted_events (build_tools_by_name tools)) (take (k - 1) calls))
              @ [PrintPanelCall (calls ! (k - 1)),
                 Prompt (''Use '' @ tc_name (calls ! (k - 1))) True]\<rparr>)"
proof -
  let ?tbn = "build_tools_by_name tools"
  let ?m = "AIMessage mid c calls"
  let ?pre = "take (k - 1) calls"
  let ?tc = "calls ! (k - 1)"
  let ?w = "w\<lparr>answers := False # later, trace := trace w @ concat (map (accepted_events ?tbn) ?pre)\<rparr>"
  have lt: "k - 1 < length calls" using assms(3,4) by simp
  have split: "calls = ?pre @ ?tc # drop k calls"
    using id_take_nth_drop [OF lt] assms(3) by simp
  have len: "length keeps = length ?pre" using assms(4,6) by simp
  have "tool_loop ?tbn ?m (?pre @ ?tc # drop k calls) [] w =
        tool_loop ?tbn ?m (?tc # drop k calls) ([] @ map2 (result_message ?tbn) ?pre keeps) ?w"
    using assms(5) len assms(7) by (rule tool_loop_accepted_prefix)
  also have "\<dots> = (Inr \<lparr>goto = ''assistant_node'',
               update = [''messages'' \<mapsto> Messages [RemoveMessage (message_id ?m)],
                         ''constraints'' \<mapsto> Constraints
                            [\<lparr>ctype = ''avoid'',
                              description = ''Do not use '' @ tc_name ?tc @ '' with arguments: ''
                                @ json_dumps (JObject (tc_args ?tc)),
                              source = ''declined_tool''\<rparr>]]\<rparr>,
          ?w\<lparr>answers := later,
            trace := trace ?w @ [PrintPanelCall ?tc, Prompt (''Use '' @ tc_name ?tc) True]\<rparr>)"
    by (rule tool_loop_declined_step) simp
  finally have "tool_loop ?tbn ?m calls [] w = (Inr \<lparr>goto = ''assistant_node'',
               update = [''messages'' \<mapsto> Messages [RemoveMessage (message_id ?m)],
                         ''constraints'' \<mapsto> Constraints
                            [\<lparr>ctype = ''avoid'',
                              description = ''Do not use '' @ tc_name ?tc @ '' with arguments: ''
                                @ json_dumps (JObject (tc_args ?tc)),
                              source = ''declined_tool''\<rparr>]]\<rparr>,
          ?w\<lparr>answers := later,
            trace := trace ?w @ [PrintPanelCall ?tc, Prompt (''Use '' @ tc_name ?tc) True]\<rparr>)"
    using split by simp
  then show ?thesis
    using ToolNode_call_loop [where get_last_message = get_last_message and st = st, OF assms(1,2)] by simp
qed

section \<open>Every call accepted and kept\<close>

text \<open>
  C3. The catalog is not empty and the message under arbitration is an assistant
  message with the calls \<open>calls\<close>. The operator accepts every call and keeps every
  result (the first \<open>2 * length calls\<close> answers are all yes), and every call has a
  result to keep: its name is in the catalog and its invocation returns. Then the node
  goes to the assistant node, and the patch holds exactly one \<open>ToolMessage\<close> per call,
  in the order of the calls, each with the serialised result, the name and the id of
  its call; the patch has no constraint entry.
\<close>

theorem all_accepted_and_kept:
  assumes "tools \<noteq> []" and "get_last_message (messages st) = AIMessage mid c calls"
    and "list_all (runs_ok (build_tools_by_name tools)) calls"
    and "answers w = replicate (2 * length calls) True @ later"
  shows "\<exists>cmd. fst (ToolNode_call get_last_message tools st w) = Inr cmd
           \<and> goto cmd = ''assistant_node''
           \<and> patch_messages cmd =
               map (\<lambda>tc. ToolMessage (json_dumps (raw_result (build_tools_by_name tools) tc))
                            (tc_name tc) (tc_id tc)) calls
           \<and> length (filter is_ToolMessage (patch_messages cmd)) = length calls
           \<and> patch_constraints cmd = []
           \<and> update cmd ''constraints'' = None"
proof -
  let ?tbn = "build_tools_by_name tools"
  let ?keeps = "replicate (length calls) True"
  have ans: "answers w = accept_script ?keeps @ later"
    using assms(4) by (simp add: accept_script_all_kept)
  have run: "ToolNode_call get_last_message tools st w =
         (Inr \<lparr>goto = ''assistant_node'',
               update = [''messages'' \<mapsto> Messages (map2 (result_message ?tbn) calls ?keeps)]\<rparr>,
          w\<lparr>answers := later,
            trace := trace w @ concat (map (accepted_events ?tbn) calls)\<rparr>)"
    using assms(1-3) _ ans by (rule ToolNode_call_all_accepted) simp
  have flt: "filter is_ToolMessage (map2 (result_message ?tbn) calls ?keeps) =
             map2 (result_message ?tbn) calls ?keeps"
    by (rule filter_ToolMessage_map2)
  show ?thesis
    unfolding run
    by (simp add: patch_messages_def patch_constraints_def flt)
       (simp add: map2_replicate_True)
qed

theorem all_accepted_and_kept_witness:
  "\<exists>cmd. fst (ToolNode_call last [search_tool, edit_tool] (state_with [search_call, edit_call])
                 (operator [True, True, True, True])) = Inr cmd
         \<and> goto cmd = ''assistant_node''
         \<and> patch_messages cmd =
              [ToolMessage ([CHR 0x22] @ ''found x'' @ [CHR 0x22]) ''search'' ''1'',
               ToolMessage ([CHR 0x22] @ ''edited'' @ [CHR 0x22]) ''edit'' ''2'']
         \<and> length (filter is_ToolMessage (patch_messages cmd)) = 2
         \<and> patch_constraints cmd = []
         \<and> update cmd ''constraints'' = None"
proof -
  have h1: "[search_tool, edit_tool] \<noteq> []" by simp
  have h2: "last (messages (state_with [search_call, edit_call])) =
            AIMessage (Some ''a1'') [] [search_call, edit_call]"
    by (simp add: state_with_def)
  have h3: "list_all (runs_ok (build_tools_by_name [search_tool, edit_tool]))
              [search_call, edit_call]"
    by (simp add: runs_ok_def build_tools_by_name_def search_tool_def edit_tool_def
          search_call_def edit_call_def)
  have h4: "answers (operator [True, True, True, True]) =
            replicate (2 * length [search_call, edit_call]) True @ []"
    by (simp add: operator_def numeral_eq_Suc)
  from all_accepted_and_kept [where get_last_message = last
        and st = "state_with [search_call, edit_call]", OF h1 h2 h3 h4]
  obtain cmd where
    "fst (ToolNode_call last [search_tool, edit_tool] (state_with [search_call, edit_call])
            (operator [True, True, True, True])) = Inr cmd"
    "goto cmd = ''assistant_node''"
    "patch_messages cmd =
       map (\<lambda>tc. ToolMessage (json_dumps (raw_result (build_tools_by_name [search_tool, edit_tool]) tc))
                    (tc_name tc) (tc_id tc)) [search_call, edit_call]"
    "length (filter is_ToolMessage (patch_messages cmd)) = length [search_call, edit_call]"
    "patch_constraints cmd = []"
    "update cmd ''constraints'' = None"
    by blast
  then show ?thesis
    by (intro exI [of _ cmd])
       (simp add: raw_result_def build_tools_by_name_def
          search_tool_def edit_tool_def search_call_def edit_call_def
          encode_basestring_ascii_def escape_char_def)
qed

section \<open>The serialisation determines the value\<close>

text \<open>
  A decimal numeral determines its number, an escaped string its characters, and a
  serialised value followed by a separator, a closing bracket or nothing determines the
  value and what follows it. So \<open>json_dumps\<close> is injective.
\<close>

lemma show_nat_nonempty: "show_nat n \<noteq> []"
  by (subst show_nat.simps) simp

lemma digit_inj:
  "i < 10 \<Longrightarrow> j < 10 \<Longrightarrow> ''0123456789'' ! i = ''0123456789'' ! j \<Longrightarrow> i = j"
  by (simp add: nth_eq_iff_index_eq)

lemma digit_mem: "i < 10 \<Longrightarrow> ''0123456789'' ! i \<in> set ''0123456789''"
  by (rule nth_mem) simp

lemma show_nat_digits: "set (show_nat n) \<subseteq> set ''0123456789''"
proof (induction n rule: show_nat.induct)
  case (1 n)
  show ?case
  proof (cases "n < 10")
    case True
    then show ?thesis using digit_mem [of n] by (subst show_nat.simps) simp
  next
    case False
    have "n mod 10 < 10" by simp
    then have "''0123456789'' ! (n mod 10) \<in> set ''0123456789''" by (rule digit_mem)
    then show ?thesis using 1 False by (subst show_nat.simps) simp
  qed
qed

lemma show_nat_inj: "show_nat n = show_nat m \<Longrightarrow> n = m"
proof (induction n arbitrary: m rule: show_nat.induct)
  case (1 n)
  show ?case
  proof (cases "n < 10")
    case True
    show ?thesis
    proof (cases "m < 10")
      case m: True
      from 1(2) True m have "''0123456789'' ! n = ''0123456789'' ! m"
        by (simp add: show_nat.simps [of n] show_nat.simps [of m])
      then show ?thesis using True m by (intro digit_inj)
    next
      case m: False
      from 1(2) True m have "[''0123456789'' ! n] = show_nat (m div 10) @ [''0123456789'' ! (m mod 10)]"
        by (simp add: show_nat.simps [of n] show_nat.simps [of m])
      then show ?thesis using show_nat_nonempty [of "m div 10"] by simp
    qed
  next
    case False
    show ?thesis
    proof (cases "m < 10")
      case m: True
      from 1(2) False m have "show_nat (n div 10) @ [''0123456789'' ! (n mod 10)] = [''0123456789'' ! m]"
        by (simp add: show_nat.simps [of n] show_nat.simps [of m])
      then show ?thesis using show_nat_nonempty [of "n div 10"] by simp
    next
      case m: False
      from 1(2) False m have eq: "show_nat (n div 10) = show_nat (m div 10)"
        and d: "''0123456789'' ! (n mod 10) = ''0123456789'' ! (m mod 10)"
        by (simp_all add: show_nat.simps [of n] show_nat.simps [of m])
      from eq have "n div 10 = m div 10" using 1(1) False by blast
      moreover have "n mod 10 = m mod 10" using d by (intro digit_inj) simp_all
      ultimately show ?thesis by (metis div_mult_mod_eq)
    qed
  qed
qed

lemma show_int_nonempty: "show_int i \<noteq> []"
  by (simp add: show_int_def show_nat_nonempty)

lemma show_int_chars: "set (show_int i) \<subseteq> set ''-0123456789''"
proof -
  have sub: "set ''0123456789'' \<subseteq> set ''-0123456789''" by (rule set_subset_Cons)
  show ?thesis
  proof (cases "i < 0")
    case True
    have "set (show_nat (nat (- i))) \<subseteq> set ''-0123456789''"
      using show_nat_digits sub by (rule subset_trans)
    then show ?thesis using True by (simp add: show_int_def)
  next
    case False
    have "set (show_nat (nat i)) \<subseteq> set ''-0123456789''"
      using show_nat_digits sub by (rule subset_trans)
    then show ?thesis using False by (simp add: show_int_def)
  qed
qed

lemma show_int_inj: "show_int i = show_int j \<Longrightarrow> i = j"
proof -
  assume eq: "show_int i = show_int j"
  have nominus: "\<And>n. CHR ''-'' \<notin> set (show_nat n)"
    using show_nat_digits by fastforce
  show ?thesis
  proof (cases "i < 0")
    case True
    show ?thesis
    proof (cases "j < 0")
      case j: True
      from eq True j have "show_nat (nat (- i)) = show_nat (nat (- j))"
        by (simp add: show_int_def)
      then have "nat (- i) = nat (- j)" by (rule show_nat_inj)
      then show ?thesis using True j by simp
    next
      case j: False
      from eq True j have "CHR ''-'' # show_nat (nat (- i)) = show_nat (nat j)"
        by (simp add: show_int_def)
      then have "CHR ''-'' \<in> set (show_nat (nat j))" by (metis list.set_intros(1))
      then show ?thesis using nominus by blast
    qed
  next
    case False
    show ?thesis
    proof (cases "j < 0")
      case j: True
      from eq False j have "show_nat (nat i) = CHR ''-'' # show_nat (nat (- j))"
        by (simp add: show_int_def)
      then have "CHR ''-'' \<in> set (show_nat (nat i))" by (metis list.set_intros(1))
      then show ?thesis using nominus by blast
    next
      case j: False
      from eq False j have "show_nat (nat i) = show_nat (nat j)"
        by (simp add: show_int_def)
      then have "nat i = nat j" by (rule show_nat_inj)
      then show ?thesis using False j by simp
    qed
  qed
qed

lemma split_at_stop:
  assumes "set a \<inter> S = {}" and "set b \<inter> S = {}"
    and "x = [] \<or> hd x \<in> S" and "y = [] \<or> hd y \<in> S"
    and "a @ x = b @ y"
  shows "a = b \<and> x = y"
  using assms
proof (induction a arbitrary: b)
  case Nil
  show ?case
  proof (cases b)
    case Nil
    then show ?thesis using Nil.prems by simp
  next
    case (Cons c cs)
    then have "x = c # cs @ y" using Nil.prems(5) by simp
    then have "c \<in> S" using Nil.prems(3) by simp
    then show ?thesis using Nil.prems(2) Cons by auto
  qed
next
  case (Cons d ds)
  show ?case
  proof (cases b)
    case Nil
    then have "y = d # ds @ x" using Cons.prems(5) by simp
    then have "d \<in> S" using Cons.prems(4) by simp
    then show ?thesis using Cons.prems(1) by auto
  next
    case c: (Cons c cs)
    then have hd: "d = c" and tl: "ds @ x = cs @ y" using Cons.prems(5) by simp_all
    have "ds = cs \<and> x = y"
      using Cons.prems(1,2,3,4) c tl by (intro Cons.IH) auto
    then show ?thesis using hd c by simp
  qed
qed

lemma hexdigit_inj:
  "i < 16 \<Longrightarrow> j < 16 \<Longrightarrow> ''0123456789abcdef'' ! i = ''0123456789abcdef'' ! j \<Longrightarrow> i = j"
  by (simp add: nth_eq_iff_index_eq)

lemma hex4_inj:
  assumes "n < 256" and "m < 256" and "hex4 n = hex4 m"
  shows "n = m"
proof -
  from assms(3) have a: "''0123456789abcdef'' ! (n div 16 mod 16) = ''0123456789abcdef'' ! (m div 16 mod 16)"
    and b: "''0123456789abcdef'' ! (n mod 16) = ''0123456789abcdef'' ! (m mod 16)"
    unfolding hex4_def by blast+
  have hi: "n div 16 mod 16 = m div 16 mod 16"
    by (rule hexdigit_inj [OF _ _ a]) simp_all
  have lo: "n mod 16 = m mod 16"
    by (rule hexdigit_inj [OF _ _ b]) simp_all
  have "n div 16 < 16" using assms(1) by (simp add: less_mult_imp_div_less)
  then have n: "n div 16 mod 16 = n div 16" by simp
  have "m div 16 < 16" using assms(2) by (simp add: less_mult_imp_div_less)
  then have m: "m div 16 mod 16 = m div 16" by simp
  have "n div 16 = m div 16" using hi n m by simp
  then show ?thesis using lo by (metis div_mult_mod_eq)
qed

lemma hex4_char_inj: "hex4 (of_char c) = hex4 (of_char c') \<Longrightarrow> c = c'"
proof -
  assume "hex4 (of_char c) = hex4 (of_char c')"
  then have "(of_char c :: nat) = of_char c'"
    by (intro hex4_inj) (simp_all add: nat_of_char_less_256)
  then show ?thesis by (simp add: of_char_eq_iff)
qed

lemma escape_char_forms:
  "(c \<noteq> CHR 0x5C \<and> c \<noteq> CHR 0x22 \<and> escape_char c = [c])
   \<or> (c = CHR 0x5C \<and> escape_char c = [CHR 0x5C, CHR 0x5C])
   \<or> (c = CHR 0x22 \<and> escape_char c = [CHR 0x5C, CHR 0x22])
   \<or> (c = CHR 0x08 \<and> escape_char c = [CHR 0x5C, CHR ''b''])
   \<or> (c = CHR 0x0C \<and> escape_char c = [CHR 0x5C, CHR ''f''])
   \<or> (c = CHR 0x0A \<and> escape_char c = [CHR 0x5C, CHR ''n''])
   \<or> (c = CHR 0x0D \<and> escape_char c = [CHR 0x5C, CHR ''r''])
   \<or> (c = CHR 0x09 \<and> escape_char c = [CHR 0x5C, CHR ''t''])
   \<or> escape_char c = CHR 0x5C # CHR ''u'' # hex4 (of_char c)"
  unfolding escape_char_def by simp

lemma hex4_append_eq: "hex4 n @ x = hex4 m @ y \<longleftrightarrow> hex4 n = hex4 m \<and> x = y"
  by (rule append_eq_append_conv) (simp add: hex4_def)

lemma escape_char_tail:
  "(c \<noteq> CHR 0x5C \<and> escape_char c = [c])
   \<or> (\<exists>e r. escape_char c = CHR 0x5C # e # r \<and> escape_tail c e r)"
  unfolding escape_tail_def
  using escape_char_forms [of c] by (elim disjE conjE) simp_all

lemma escape_tail_unique:
  assumes "escape_tail c e r" and "escape_tail c' e r'" and "r @ x = r' @ y"
  shows "c = c' \<and> x = y"
proof (cases "e = CHR ''u''")
  case True
  then have "r = hex4 (of_char c)" and "r' = hex4 (of_char c')"
    using assms(1,2) by (simp_all add: escape_tail_def)
  then have "hex4 (of_char c) = hex4 (of_char c')" and "x = y"
    using assms(3) by (simp_all add: hex4_append_eq)
  then show ?thesis using hex4_char_inj by blast
next
  case False
  then have "r = []" and "r' = []" using assms(1,2) unfolding escape_tail_def by blast+
  moreover have "c = c'"
    using False assms(1,2) unfolding escape_tail_def by (elim disjE conjE) simp_all
  ultimately show ?thesis using assms(3) by simp
qed

lemma escape_char_unique:
  assumes "escape_char c @ x = escape_char c' @ y"
  shows "c = c' \<and> x = y"
proof -
  from escape_char_tail [of c] show ?thesis
  proof (rule disjE)
    assume p: "c \<noteq> CHR 0x5C \<and> escape_char c = [c]"
    from escape_char_tail [of c'] show ?thesis
    proof (rule disjE)
      assume "c' \<noteq> CHR 0x5C \<and> escape_char c' = [c']"
      then show ?thesis using p assms by simp
    next
      assume "\<exists>e r. escape_char c' = CHR 0x5C # e # r \<and> escape_tail c' e r"
      then obtain e r where "escape_char c' = CHR 0x5C # e # r" by blast
      then show ?thesis using p assms by simp
    qed
  next
    assume "\<exists>e r. escape_char c = CHR 0x5C # e # r \<and> escape_tail c e r"
    then obtain e r where c: "escape_char c = CHR 0x5C # e # r" and t: "escape_tail c e r"
      by blast
    from escape_char_tail [of c'] show ?thesis
    proof (rule disjE)
      assume "c' \<noteq> CHR 0x5C \<and> escape_char c' = [c']"
      then show ?thesis using c assms by simp
    next
      assume "\<exists>e r. escape_char c' = CHR 0x5C # e # r \<and> escape_tail c' e r"
      then obtain e' r' where c': "escape_char c' = CHR 0x5C # e' # r'"
        and t': "escape_tail c' e' r'" by blast
      from assms c c' have "e' = e" and rr: "r @ x = r' @ y" by simp_all
      then have "escape_tail c' e r'" using t' by simp
      with t show ?thesis using rr by (rule escape_tail_unique)
    qed
  qed
qed

lemma escape_char_not_quote: "escape_char c @ r \<noteq> CHR 0x22 # x"
  using escape_char_forms [of c] by (elim disjE conjE) simp_all

lemma escaped_unique:
  "concat (map escape_char s) @ CHR 0x22 # x = concat (map escape_char s') @ CHR 0x22 # y
   \<Longrightarrow> s = s' \<and> x = y"
proof (induction s arbitrary: s')
  case Nil
  show ?case
  proof (cases s')
    case Nil
    then show ?thesis using Nil.prems by simp
  next
    case (Cons c cs)
    then have "escape_char c @ (concat (map escape_char cs) @ CHR 0x22 # y) = CHR 0x22 # x"
      using Nil.prems by simp
    then show ?thesis using escape_char_not_quote by blast
  qed
next
  case (Cons d ds)
  show ?case
  proof (cases s')
    case Nil
    then have "escape_char d @ (concat (map escape_char ds) @ CHR 0x22 # x) = CHR 0x22 # y"
      using Cons.prems by simp
    then show ?thesis using escape_char_not_quote by blast
  next
    case c: (Cons c cs)
    then have "escape_char d @ (concat (map escape_char ds) @ CHR 0x22 # x) =
               escape_char c @ (concat (map escape_char cs) @ CHR 0x22 # y)"
      using Cons.prems by simp
    then have "d = c" and "concat (map escape_char ds) @ CHR 0x22 # x =
        concat (map escape_char cs) @ CHR 0x22 # y"
      using escape_char_unique by blast+
    then show ?thesis using Cons.IH c by simp
  qed
qed

lemma encode_basestring_ascii_unique:
  "encode_basestring_ascii s @ x = encode_basestring_ascii s' @ y \<Longrightarrow> s = s' \<and> x = y"
  using escaped_unique [of s x s' y] by (simp add: encode_basestring_ascii_def)

lemma join_Cons: "join sep (x # xs) = x @ (if xs = [] then [] else sep @ join sep xs)"
  by (cases xs) simp_all

lemma show_int_hd: "\<exists>c cs. show_int i = c # cs \<and> c \<in> set ''-0123456789''"
proof -
  obtain c cs where eq: "show_int i = c # cs"
    using show_int_nonempty [of i] by (cases "show_int i") auto
  then have "c \<in> set (show_int i)" by simp
  then have "c \<in> set ''-0123456789''" using show_int_chars by blast
  then show ?thesis using eq by blast
qed

lemma json_dumps_hd:
  "\<exists>c cs. json_dumps v = c # cs \<and> char_kind c = json_kind v \<and> c \<notin> set '',]}''"
proof (cases v)
  case (JInt i)
  obtain c cs where eq: "show_int i = c # cs" and c: "c \<in> set ''-0123456789''"
    using show_int_hd by blast
  from c have "char_kind c = 2" and "c \<notin> set '',]}''"
    by (auto simp: char_kind_def)
  then show ?thesis using JInt eq by simp
qed (simp_all add: char_kind_def encode_basestring_ascii_def)

lemma json_dumps_same_kind:
  assumes "json_dumps v @ x = json_dumps v' @ y"
  shows "json_kind v = json_kind v'"
proof -
  obtain c cs where v: "json_dumps v = c # cs" and k: "char_kind c = json_kind v"
    using json_dumps_hd [of v] by blast
  obtain c' cs' where v': "json_dumps v' = c' # cs'" and k': "char_kind c' = json_kind v'"
    using json_dumps_hd [of v'] by blast
  from assms v v' have "c = c'" by simp
  then show ?thesis using k k' by simp
qed

lemma joined_unique:
  assumes elem: "\<And>a b u w. a \<in> set xs \<Longrightarrow> u = [] \<or> hd u \<in> S \<Longrightarrow> w = [] \<or> hd w \<in> S
                   \<Longrightarrow> f a @ u = f b @ w \<Longrightarrow> a = b \<and> u = w"
    and start: "\<And>b. \<exists>c cs. f b = c # cs \<and> c \<notin> S"
    and S: "t \<in> S" "CHR '','' \<in> S" "t \<noteq> CHR '',''"
    and eq: "join '', '' (map f xs) @ t # x = join '', '' (map f ys) @ t # y"
  shows "xs = ys \<and> x = y"
  using elem eq
proof (induction xs arbitrary: ys)
  case Nil
  show ?case
  proof (cases ys)
    case Nil
    then show ?thesis using Nil.prems(2) by simp
  next
    case (Cons b bs)
    obtain c cs where "f b = c # cs" and "c \<notin> S" using start [of b] by blast
    then show ?thesis using Nil.prems(2) Cons S(1) by (simp add: join_Cons)
  qed
next
  case (Cons a as)
  show ?case
  proof (cases ys)
    case Nil
    obtain c cs where "f a = c # cs" and "c \<notin> S" using start [of a] by blast
    then show ?thesis using Cons.prems(2) Nil S(1) by (simp add: join_Cons)
  next
    case b: (Cons b bs)
    let ?u = "(if as = [] then [] else '', '' @ join '', '' (map f as)) @ t # x"
    let ?w = "(if bs = [] then [] else '', '' @ join '', '' (map f bs)) @ t # y"
    have eq: "f a @ ?u = f b @ ?w" using Cons.prems(2) b by (simp add: join_Cons)
    have su: "?u = [] \<or> hd ?u \<in> S" using S by simp
    have sw: "?w = [] \<or> hd ?w \<in> S" using S by simp
    have ab: "a = b \<and> ?u = ?w"
      using Cons.prems(1) [of a ?u ?w b] su sw eq by simp
    show ?thesis
    proof (cases "as = []")
      case True
      show ?thesis
      proof (cases "bs = []")
        case bs: True
        then show ?thesis using ab True b by simp
      next
        case bs: False
        then show ?thesis using ab True S(3) by simp
      qed
    next
      case False
      show ?thesis
      proof (cases "bs = []")
        case bs: True
        then show ?thesis using ab False S(3) by simp
      next
        case bs: False
        then have eq': "join '', '' (map f as) @ t # x = join '', '' (map f bs) @ t # y"
          using ab False by simp
        have elem': "a' = b' \<and> u = w"
          if "a' \<in> set as" "u = [] \<or> hd u \<in> S" "w = [] \<or> hd w \<in> S" "f a' @ u = f b' @ w"
          for a' b' u w
          using Cons.prems(1) [of a' u w b'] that by simp
        have "as = bs \<and> x = y" using elem' eq' by (rule Cons.IH)
        then show ?thesis using ab b by simp
      qed
    qed
  qed
qed

lemma json_dumps_start: "\<exists>c cs. json_dumps b = c # cs \<and> c \<notin> set '',]}''"
  using json_dumps_hd [of b] by blast

lemma entry_start:
  "\<exists>c cs. (case b of (k, v) \<Rightarrow> encode_basestring_ascii k @ '': '' @ json_dumps v) = c # cs
          \<and> c \<notin> set '',]}''"
  by (cases b) (simp add: encode_basestring_ascii_def)

lemma kind_JNull: "json_kind v' = json_kind JNull \<Longrightarrow> v' = JNull"
  by (cases v') simp_all

lemma kind_JBool: "json_kind v' = json_kind (JBool b) \<Longrightarrow> \<exists>b'. v' = JBool b'"
  by (cases v') simp_all

lemma kind_JInt: "json_kind v' = json_kind (JInt i) \<Longrightarrow> \<exists>j. v' = JInt j"
  by (cases v') simp_all

lemma kind_JString: "json_kind v' = json_kind (JString s) \<Longrightarrow> \<exists>s'. v' = JString s'"
  by (cases v') simp_all

lemma kind_JArray: "json_kind v' = json_kind (JArray xs) \<Longrightarrow> \<exists>ys. v' = JArray ys"
  by (cases v') simp_all

lemma kind_JObject: "json_kind v' = json_kind (JObject kvs) \<Longrightarrow> \<exists>kvs'. v' = JObject kvs'"
  by (cases v') simp_all

lemma unique_JNull:
  assumes "json_dumps JNull @ x = json_dumps v' @ y"
  shows "JNull = v' \<and> x = y"
proof -
  have "json_kind v' = json_kind JNull" using json_dumps_same_kind [OF assms] by simp
  then have "v' = JNull" by (rule kind_JNull)
  then show ?thesis using assms by simp
qed

lemma unique_JBool:
  assumes "json_dumps (JBool b) @ x = json_dumps v' @ y"
  shows "JBool b = v' \<and> x = y"
proof -
  have "json_kind v' = json_kind (JBool b)" using json_dumps_same_kind [OF assms] by simp
  then obtain b' where v': "v' = JBool b'" using kind_JBool by blast
  show ?thesis
  proof (cases b)
    case True
    show ?thesis using assms True unfolding v' by (cases b') simp_all
  next
    case False
    show ?thesis using assms False unfolding v' by (cases b') simp_all
  qed
qed

lemma show_int_no_stop: "set (show_int i) \<inter> set '',]}'' = {}"
proof -
  have "set ''-0123456789'' \<inter> set '',]}'' = {}" by simp
  then show ?thesis using show_int_chars [of i] by blast
qed

lemma unique_JInt:
  assumes "x = [] \<or> hd x \<in> set '',]}''" and "y = [] \<or> hd y \<in> set '',]}''"
    and "json_dumps (JInt i) @ x = json_dumps v' @ y"
  shows "JInt i = v' \<and> x = y"
proof -
  have "json_kind v' = json_kind (JInt i)" using json_dumps_same_kind [OF assms(3)] by simp
  then obtain j where v': "v' = JInt j" using kind_JInt by blast
  have eq: "show_int i @ x = show_int j @ y" using assms(3) v' by simp
  have "show_int i = show_int j \<and> x = y"
    using show_int_no_stop show_int_no_stop assms(1,2) eq by (rule split_at_stop)
  then show ?thesis using v' show_int_inj by blast
qed

lemma unique_JString:
  assumes "json_dumps (JString s) @ x = json_dumps v' @ y"
  shows "JString s = v' \<and> x = y"
proof -
  have "json_kind v' = json_kind (JString s)" using json_dumps_same_kind [OF assms] by simp
  then obtain s' where v': "v' = JString s'" using kind_JString by blast
  have "encode_basestring_ascii s @ x = encode_basestring_ascii s' @ y"
    using assms v' by simp
  then have "s = s' \<and> x = y" by (rule encode_basestring_ascii_unique)
  then show ?thesis using v' by simp
qed

lemma unique_JArray:
  assumes IH: "\<And>a b u w. a \<in> set xs \<Longrightarrow> u = [] \<or> hd u \<in> set '',]}''
                 \<Longrightarrow> w = [] \<or> hd w \<in> set '',]}''
                 \<Longrightarrow> json_dumps a @ u = json_dumps b @ w \<Longrightarrow> a = b \<and> u = w"
    and "json_dumps (JArray xs) @ x = json_dumps v' @ y"
  shows "JArray xs = v' \<and> x = y"
proof -
  have "json_kind v' = json_kind (JArray xs)" using json_dumps_same_kind [OF assms(2)] by simp
  then obtain ys where v': "v' = JArray ys" using kind_JArray by blast
  have eq: "join '', '' (map json_dumps xs) @ CHR '']'' # x =
            join '', '' (map json_dumps ys) @ CHR '']'' # y"
    using assms(2) v' by simp
  have "xs = ys \<and> x = y"
    by (rule joined_unique [where f = json_dumps and S = "set '',]}''" and t = "CHR '']''",
          OF IH json_dumps_start _ _ _ eq]) simp_all
  then show ?thesis using v' by simp
qed

lemma unique_JObject:
  assumes IH: "\<And>a v b u w. a \<in> set kvs \<Longrightarrow> v \<in> Basic_BNFs.snds a
                 \<Longrightarrow> u = [] \<or> hd u \<in> set '',]}''
                 \<Longrightarrow> w = [] \<or> hd w \<in> set '',]}''
                 \<Longrightarrow> json_dumps v @ u = json_dumps b @ w \<Longrightarrow> v = b \<and> u = w"
    and "json_dumps (JObject kvs) @ x = json_dumps v' @ y"
  shows "JObject kvs = v' \<and> x = y"
proof -
  have "json_kind v' = json_kind (JObject kvs)" using json_dumps_same_kind [OF assms(2)] by simp
  then obtain kvs' where v': "v' = JObject kvs'" using kind_JObject by blast
  let ?f = "\<lambda>(k, v). encode_basestring_ascii k @ '': '' @ json_dumps v"
  have eq: "join '', '' (map ?f kvs) @ CHR ''}'' # x = join '', '' (map ?f kvs') @ CHR ''}'' # y"
    using assms(2) v' by simp
  have elem: "a = b \<and> u = w"
    if a: "a \<in> set kvs" and u: "u = [] \<or> hd u \<in> set '',]}''"
      and w: "w = [] \<or> hd w \<in> set '',]}''" and e: "?f a @ u = ?f b @ w" for a b u w
  proof -
    obtain k v where ak: "a = (k, v)" by (cases a)
    obtain k' v' where bk: "b = (k', v')" by (cases b)
    from e ak bk have "encode_basestring_ascii k @ ('': '' @ json_dumps v @ u) =
        encode_basestring_ascii k' @ ('': '' @ json_dumps v' @ w)" by simp
    then have kk: "k = k'" and rest: "'': '' @ json_dumps v @ u = '': '' @ json_dumps v' @ w"
      using encode_basestring_ascii_unique by blast+
    from rest have dv: "json_dumps v @ u = json_dumps v' @ w" by simp
    have "v \<in> Basic_BNFs.snds a" using ak by simp
    with a have "v = v' \<and> u = w" using u w dv by (rule IH)
    then show ?thesis using ak bk kk by simp
  qed
  have "kvs = kvs' \<and> x = y"
    by (rule joined_unique [where f = ?f and S = "set '',]}''" and t = "CHR ''}''",
          OF elem entry_start _ _ _ eq]) simp_all
  then show ?thesis using v' by simp
qed

lemma json_dumps_unique:
  assumes "x = [] \<or> hd x \<in> set '',]}''" and "y = [] \<or> hd y \<in> set '',]}''"
    and "json_dumps v @ x = json_dumps v' @ y"
  shows "v = v' \<and> x = y"
  using assms
proof (induction v arbitrary: v' x y)
  case JNull
  from JNull.prems(3) show ?case by (rule unique_JNull)
next
  case (JBool b)
  from JBool.prems(3) show ?case by (rule unique_JBool)
next
  case (JInt i)
  from JInt.prems show ?case by (rule unique_JInt)
next
  case (JString s)
  from JString.prems(3) show ?case by (rule unique_JString)
next
  case (JArray xs)
  show ?case using JArray.IH JArray.prems(3) by (rule unique_JArray)
next
  case (JObject kvs)
  show ?case using JObject.IH JObject.prems(3) by (rule unique_JObject)
qed

lemma json_dumps_inj: "json_dumps v = json_dumps v' \<Longrightarrow> v = v'"
  using json_dumps_unique [of "[]" "[]" v v'] by simp

lemma json_dumps_JObject_inj:
  "json_dumps (JObject a) = json_dumps (JObject b) \<longleftrightarrow> a = b"
  using json_dumps_inj [of "JObject a" "JObject b"] by auto

section \<open>A declined call\<close>

text \<open>
  C1. The operator declines call \<open>k\<close> (counted from 1, \<open>k \<le> length calls\<close>) after
  having accepted the \<open>k - 1\<close> calls before it, which all ran, whatever the answers
  \<open>keeps\<close> at their reviews were. Then the node goes to the assistant node with a patch
  that holds no \<open>ToolMessage\<close>, exactly the removal of the assistant message by its id,
  and exactly one constraint, of type avoid and source declined_tool. The tools invoked
  during the run are those of the calls \<open>1 .. k - 1\<close>, once each and in order: no call
  from position \<open>k\<close> on is invoked, and the decline is the last prompt.
\<close>

theorem declined_call_aborts:
  assumes "tools \<noteq> []" and "get_last_message (messages st) = AIMessage mid c calls"
    and "1 \<le> k" and "k \<le> length calls"
    and "list_all (runs_ok (build_tools_by_name tools)) (take (k - 1) calls)"
    and "length keeps = k - 1"
    and "answers w = accept_script keeps @ False # later"
  shows "\<exists>cmd con. fst (ToolNode_call get_last_message tools st w) = Inr cmd
           \<and> goto cmd = ''assistant_node''
           \<and> filter is_ToolMessage (patch_messages cmd) = []
           \<and> patch_messages cmd = [RemoveMessage mid]
           \<and> patch_constraints cmd = [con]
           \<and> ctype con = ''avoid'' \<and> source con = ''declined_tool''
           \<and> invocations (trace (snd (ToolNode_call get_last_message tools st w))) =
               invocations (trace w) @ map (\<lambda>tc. (tc_name tc, tc_args tc)) (take (k - 1) calls)
           \<and> length (prompts (trace (snd (ToolNode_call get_last_message tools st w)))) =
               length (prompts (trace w)) + 2 * (k - 1) + 1"
proof -
  define tbn where "tbn = build_tools_by_name tools"
  define pre where "pre = take (k - 1) calls"
  define tc where "tc = calls ! (k - 1)"
  define w' where "w' = w\<lparr>answers := later,
            trace := trace w @ concat (map (accepted_events tbn) pre)
              @ [PrintPanelCall tc, Prompt (''Use '' @ tc_name tc) True]\<rparr>"
  have run: "ToolNode_call get_last_message tools st w =
         (Inr \<lparr>goto = ''assistant_node'',
               update = [''messages'' \<mapsto> Messages [RemoveMessage mid],
                         ''constraints'' \<mapsto> Constraints
                            [\<lparr>ctype = ''avoid'',
                              description = ''Do not use '' @ tc_name tc @ '' with arguments: ''
                                @ json_dumps (JObject (tc_args tc)),
                              source = ''declined_tool''\<rparr>]]\<rparr>, w')"
    unfolding tbn_def pre_def tc_def w'_def using assms by (rule ToolNode_call_declined)
  have inv: "invocations (concat (map (accepted_events tbn) pre)) =
             map (\<lambda>tc. (tc_name tc, tc_args tc)) pre"
    unfolding tbn_def pre_def using assms(5) by (rule invocations_accepted)
  have pr: "length (prompts (concat (map (accepted_events tbn) pre))) = 2 * length pre"
    by (rule prompts_accepted)
  have len: "length pre = k - 1" using assms(3,4) by (simp add: pre_def)
  have inv': "invocations (trace w') = invocations (trace w) @ map (\<lambda>tc. (tc_name tc, tc_args tc)) pre"
    by (simp add: w'_def invocations_append inv) (simp add: invocations_def)
  have pr': "length (prompts (trace w')) = length (prompts (trace w)) + 2 * (k - 1) + 1"
    by (simp add: w'_def prompts_append pr len) (simp add: prompts_def)
  show ?thesis
    unfolding run using inv' pr'
    by (simp add: patch_messages_def patch_constraints_def pre_def)
qed

theorem declined_call_aborts_witness:
  "\<exists>cmd con. fst (ToolNode_call last [search_tool, edit_tool] (state_with [search_call, edit_call])
                     (operator [True, True, False])) = Inr cmd
           \<and> goto cmd = ''assistant_node''
           \<and> filter is_ToolMessage (patch_messages cmd) = []
           \<and> patch_messages cmd = [RemoveMessage (Some ''a1'')]
           \<and> patch_constraints cmd = [con]
           \<and> ctype con = ''avoid'' \<and> source con = ''declined_tool''
           \<and> invocations (trace (snd (ToolNode_call last [search_tool, edit_tool]
                 (state_with [search_call, edit_call]) (operator [True, True, False])))) =
               [(''search'', [(''q'', JString ''x'')])]
           \<and> length (prompts (trace (snd (ToolNode_call last [search_tool, edit_tool]
                 (state_with [search_call, edit_call]) (operator [True, True, False]))))) = 3"
proof -
  have h1: "[search_tool, edit_tool] \<noteq> []" by simp
  have h2: "last (messages (state_with [search_call, edit_call])) =
            AIMessage (Some ''a1'') [] [search_call, edit_call]"
    by (simp add: state_with_def)
  have h3: "(1::nat) \<le> 2" by simp
  have h4: "2 \<le> length [search_call, edit_call]" by simp
  have h5: "list_all (runs_ok (build_tools_by_name [search_tool, edit_tool]))
              (take (2 - 1) [search_call, edit_call])"
    by (simp add: runs_ok_def build_tools_by_name_def search_tool_def edit_tool_def
          search_call_def edit_call_def)
  have h6: "length [True] = 2 - 1" by simp
  have h7: "answers (operator [True, True, False]) = accept_script [True] @ False # []"
    by (simp add: operator_def accept_script_def)
  from declined_call_aborts [where get_last_message = last
        and st = "state_with [search_call, edit_call]", OF h1 h2 h3 h4 h5 h6 h7]
  obtain cmd con where
    "fst (ToolNode_call last [search_tool, edit_tool] (state_with [search_call, edit_call])
            (operator [True, True, False])) = Inr cmd"
    "goto cmd = ''assistant_node''"
    "filter is_ToolMessage (patch_messages cmd) = []"
    "patch_messages cmd = [RemoveMessage (Some ''a1'')]"
    "patch_constraints cmd = [con]"
    "ctype con = ''avoid''" "source con = ''declined_tool''"
    "invocations (trace (snd (ToolNode_call last [search_tool, edit_tool]
       (state_with [search_call, edit_call]) (operator [True, True, False])))) =
     invocations (trace (operator [True, True, False]))
       @ map (\<lambda>tc. (tc_name tc, tc_args tc)) (take (2 - 1) [search_call, edit_call])"
    "length (prompts (trace (snd (ToolNode_call last [search_tool, edit_tool]
       (state_with [search_call, edit_call]) (operator [True, True, False]))))) =
     length (prompts (trace (operator [True, True, False]))) + 2 * (2 - 1) + 1"
    by blast
  then show ?thesis
    by (intro exI [of _ cmd] exI [of _ con])
       (simp add: operator_def invocations_def prompts_def search_call_def)
qed

text \<open>
  C6, as the code has it. When the call at the head of the remaining batch is
  declined, whatever the catalog, the message, the calls that follow, the results so
  far and the trace are, the constraint has type avoid and source declined_tool, and
  its description is \<open>Do not use NAME with arguments: ARGS\<close>, with the name of the
  call and the \<open>json.dumps\<close> of its arguments: the name occurs in it and it ends with
  the serialised arguments. The arguments are a dictionary in insertion order, which is
  the order \<open>json.dumps\<close> writes them in: two declines, in any two such situations, of
  calls with the same name give the same description exactly when their arguments have
  the same entries in the same order.
\<close>

theorem declined_constraint_description:
  assumes "answers w = False # later" and "answers w' = False # later'"
    and "tc_name tc' = tc_name tc"
  shows "\<exists>cmd con cmd' con'.
           fst (tool_loop tbn m (tc # rest) outs w) = Inr cmd \<and> patch_constraints cmd = [con]
           \<and> fst (tool_loop tbn' m' (tc' # rest') outs' w') = Inr cmd' \<and> patch_constraints cmd' = [con']
           \<and> ctype con = ''avoid'' \<and> source con = ''declined_tool''
           \<and> description con =
               ''Do not use '' @ tc_name tc @ '' with arguments: '' @ json_dumps (JObject (tc_args tc))
           \<and> (description con' = description con) = (tc_args tc' = tc_args tc)
           \<and> sublist (tc_name tc) (description con)
           \<and> suffix (json_dumps (JObject (tc_args tc))) (description con)"
proof -
  have s1: "sublist (tc_name tc)
      (''Do not use '' @ tc_name tc @ '' with arguments: '' @ json_dumps (JObject (tc_args tc)))"
    by (rule sublist_appendI)
  have s2: "suffix (json_dumps (JObject (tc_args tc)))
      ((''Do not use '' @ tc_name tc @ '' with arguments: '') @ json_dumps (JObject (tc_args tc)))"
    by (rule suffix_appendI) simp
  have inj: "(''Do not use '' @ tc_name tc @ '' with arguments: '' @ json_dumps (JObject (tc_args tc'))
              = ''Do not use '' @ tc_name tc @ '' with arguments: '' @ json_dumps (JObject (tc_args tc)))
             = (tc_args tc' = tc_args tc)"
    by (simp add: json_dumps_JObject_inj del: json_dumps.simps)
  show ?thesis
    unfolding tool_loop_declined_step [OF assms(1)] tool_loop_declined_step [OF assms(2)]
    using s1 s2 inj assms(3) by (simp add: patch_constraints_def del: json_dumps.simps)
qed

theorem declined_constraint_description_witness:
  "\<exists>cmd con cmd' con'.
     fst (tool_loop (build_tools_by_name [search_tool, edit_tool])
            (AIMessage (Some ''a1'') [] [resize_call]) (resize_call # []) [] (operator [False])) = Inr cmd
     \<and> patch_constraints cmd = [con]
     \<and> fst (tool_loop (build_tools_by_name [edit_tool])
            (AIMessage (Some ''a7'') ''retry'' [resize_call\<lparr>tc_id := ''9''\<rparr>, search_call])
            (resize_call\<lparr>tc_id := ''9''\<rparr> # [search_call]) [] (operator [False, True])) = Inr cmd'
     \<and> patch_constraints cmd' = [con']
     \<and> ctype con = ''avoid'' \<and> source con = ''declined_tool''
     \<and> description con =
         ''Do not use resize with arguments: {'' @ [CHR 0x22] @ ''width'' @ [CHR 0x22] @ '': 5, ''
           @ [CHR 0x22] @ ''height'' @ [CHR 0x22] @ '': 7}''
     \<and> description con' = description con
     \<and> sublist ''resize'' (description con)
     \<and> suffix (''{'' @ [CHR 0x22] @ ''width'' @ [CHR 0x22] @ '': 5, ''
           @ [CHR 0x22] @ ''height'' @ [CHR 0x22] @ '': 7}'') (description con)"
proof -
  have h1: "answers (operator [False]) = False # []" by (simp add: operator_def)
  have h2: "answers (operator [False, True]) = False # [True]" by (simp add: operator_def)
  have h3: "tc_name (resize_call\<lparr>tc_id := ''9''\<rparr>) = tc_name resize_call" by simp
  have d: "json_dumps (JObject (tc_args resize_call)) =
           ''{'' @ [CHR 0x22] @ ''width'' @ [CHR 0x22] @ '': 5, ''
             @ [CHR 0x22] @ ''height'' @ [CHR 0x22] @ '': 7}''"
    by (simp add: resize_call_def encode_basestring_ascii_def escape_char_def show_int_def
          show_nat.simps)
  from declined_constraint_description [OF h1 h2 h3,
      of "build_tools_by_name [search_tool, edit_tool]" "AIMessage (Some ''a1'') [] [resize_call]" "[]" "[]"
         "build_tools_by_name [edit_tool]"
         "AIMessage (Some ''a7'') ''retry'' [resize_call\<lparr>tc_id := ''9''\<rparr>, search_call]"
         "[search_call]" "[]"]
  obtain cmd con cmd' con' where
    "fst (tool_loop (build_tools_by_name [search_tool, edit_tool])
            (AIMessage (Some ''a1'') [] [resize_call]) (resize_call # []) [] (operator [False])) = Inr cmd"
    "patch_constraints cmd = [con]"
    "fst (tool_loop (build_tools_by_name [edit_tool])
            (AIMessage (Some ''a7'') ''retry'' [resize_call\<lparr>tc_id := ''9''\<rparr>, search_call])
            (resize_call\<lparr>tc_id := ''9''\<rparr> # [search_call]) [] (operator [False, True])) = Inr cmd'"
    "patch_constraints cmd' = [con']"
    "ctype con = ''avoid''" "source con = ''declined_tool''"
    "description con = ''Do not use '' @ tc_name resize_call @ '' with arguments: ''
        @ json_dumps (JObject (tc_args resize_call))"
    "(description con' = description con) =
       (tc_args (resize_call\<lparr>tc_id := ''9''\<rparr>) = tc_args resize_call)"
    "sublist (tc_name resize_call) (description con)"
    "suffix (json_dumps (JObject (tc_args resize_call))) (description con)"
    by blast
  then show ?thesis
    unfolding d
    by (intro exI [of _ cmd] exI [of _ con] exI [of _ cmd'] exI [of _ con'])
       (simp add: resize_call_def)
qed

text \<open>
  Two calls of the same name whose arguments are equal as dictionaries, with the two
  keys inserted in the other order, are declined: the descriptions differ.
\<close>

theorem reordered_arguments_counterexample:
  "tc_name resize_call_reordered = tc_name resize_call
   \<and> map_of (tc_args resize_call_reordered) = map_of (tc_args resize_call)
   \<and> map description (patch_constraints (projr (fst (ToolNode_call last [edit_tool]
        (state_with [resize_call]) (operator [False]))))) =
       [''Do not use resize with arguments: {'' @ [CHR 0x22] @ ''width'' @ [CHR 0x22] @ '': 5, ''
           @ [CHR 0x22] @ ''height'' @ [CHR 0x22] @ '': 7}'']
   \<and> map description (patch_constraints (projr (fst (ToolNode_call last [edit_tool]
        (state_with [resize_call_reordered]) (operator [False]))))) =
       [''Do not use resize with arguments: {'' @ [CHR 0x22] @ ''height'' @ [CHR 0x22] @ '': 7, ''
           @ [CHR 0x22] @ ''width'' @ [CHR 0x22] @ '': 5}'']
   \<and> map description (patch_constraints (projr (fst (ToolNode_call last [edit_tool]
        (state_with [resize_call]) (operator [False]))))) \<noteq>
     map description (patch_constraints (projr (fst (ToolNode_call last [edit_tool]
        (state_with [resize_call_reordered]) (operator [False])))))"
proof -
  have m: "map_of (tc_args resize_call_reordered) = map_of (tc_args resize_call)"
    by (rule ext) (simp add: resize_call_def resize_call_reordered_def)
  have r1: "ToolNode_call last [edit_tool] (state_with [resize_call]) (operator [False]) =
            tool_loop (build_tools_by_name [edit_tool]) (AIMessage (Some ''a1'') [] [resize_call])
              [resize_call] [] (operator [False])"
    by (simp add: ToolNode_call_def state_with_def)
  have r2: "ToolNode_call last [edit_tool] (state_with [resize_call_reordered]) (operator [False]) =
            tool_loop (build_tools_by_name [edit_tool])
              (AIMessage (Some ''a1'') [] [resize_call_reordered])
              [resize_call_reordered] [] (operator [False])"
    by (simp add: ToolNode_call_def state_with_def)
  have a: "answers (operator [False]) = False # []" by (simp add: operator_def)
  show ?thesis
    unfolding r1 r2 tool_loop_declined_step [OF a]
    using m
    by (simp add: patch_constraints_def resize_call_def resize_call_reordered_def
          encode_basestring_ascii_def escape_char_def show_int_def show_nat.simps)
qed

section \<open>A result rejected at the review\<close>

text \<open>
  C5. Every call of the batch is accepted and runs, and the operator answers
  \<open>keeps ! i\<close> at the review of call \<open>i\<close> (counted from 0). If the result of call
  \<open>i\<close> is rejected, entry \<open>i\<close> of the patch is the \<open>ToolMessage\<close> whose content is
  the serialised placeholder with the text
  \<open>User did not find the results useful for the task.\<close>, whatever the tool
  returned, and whose name and \<open>tool_call_id\<close> are those of call \<open>i\<close>.
\<close>

theorem discarded_result_placeholder:
  assumes "tools \<noteq> []" and "get_last_message (messages st) = AIMessage mid c calls"
    and "list_all (runs_ok (build_tools_by_name tools)) calls"
    and "length keeps = length calls"
    and "answers w = accept_script keeps @ later"
    and "i < length calls" and "\<not> keeps ! i"
  shows "\<exists>cmd. fst (ToolNode_call get_last_message tools st w) = Inr cmd
           \<and> length (patch_messages cmd) = length calls
           \<and> patch_messages cmd ! i =
               ToolMessage (json_dumps discarded_result) (tc_name (calls ! i)) (tc_id (calls ! i))
           \<and> json_dumps discarded_result =
               ''{'' @ [CHR 0x22] @ ''result'' @ [CHR 0x22] @ '': '' @ [CHR 0x22]
                 @ ''User did not find the results useful for the task.'' @ [CHR 0x22] @ ''}''"
proof -
  define tbn where "tbn = build_tools_by_name tools"
  have run: "ToolNode_call get_last_message tools st w =
         (Inr \<lparr>goto = ''assistant_node'',
               update = [''messages'' \<mapsto> Messages (map2 (result_message tbn) calls keeps)]\<rparr>,
          w\<lparr>answers := later, trace := trace w @ concat (map (accepted_events tbn) calls)\<rparr>)"
    unfolding tbn_def using assms(1-5) by (rule ToolNode_call_all_accepted)
  have nth: "map2 (result_message tbn) calls keeps ! i = result_message tbn (calls ! i) (keeps ! i)"
    using assms(4,6) by simp
  have msg: "result_message tbn (calls ! i) (keeps ! i) =
             ToolMessage (json_dumps discarded_result) (tc_name (calls ! i)) (tc_id (calls ! i))"
    using assms(7) by (simp add: result_message_def)
  have len: "length (map2 (result_message tbn) calls keeps) = length calls"
    using assms(4) by simp
  show ?thesis
    unfolding run using nth msg len json_dumps_discarded_result
    by (simp add: patch_messages_def)
qed

theorem discarded_result_placeholder_witness:
  "\<exists>cmd. fst (ToolNode_call last [search_tool, edit_tool] (state_with [search_call, edit_call])
                 (operator [True, False, True, True])) = Inr cmd
         \<and> length (patch_messages cmd) = 2
         \<and> patch_messages cmd ! 0 =
             ToolMessage (''{'' @ [CHR 0x22] @ ''result'' @ [CHR 0x22] @ '': '' @ [CHR 0x22]
                 @ ''User did not find the results useful for the task.'' @ [CHR 0x22] @ ''}'')
               ''search'' ''1''"
proof -
  have h1: "[search_tool, edit_tool] \<noteq> []" by simp
  have h2: "last (messages (state_with [search_call, edit_call])) =
            AIMessage (Some ''a1'') [] [search_call, edit_call]"
    by (simp add: state_with_def)
  have h3: "list_all (runs_ok (build_tools_by_name [search_tool, edit_tool]))
              [search_call, edit_call]"
    by (simp add: runs_ok_def build_tools_by_name_def search_tool_def edit_tool_def
          search_call_def edit_call_def)
  have h4: "length [False, True] = length [search_call, edit_call]" by simp
  have h5: "answers (operator [True, False, True, True]) = accept_script [False, True] @ []"
    by (simp add: operator_def accept_script_def)
  have h6: "0 < length [search_call, edit_call]" by simp
  have h7: "\<not> [False, True] ! 0" by simp
  from discarded_result_placeholder [where get_last_message = last
        and st = "state_with [search_call, edit_call]", OF h1 h2 h3 h4 h5 h6 h7]
  obtain cmd where
    "fst (ToolNode_call last [search_tool, edit_tool] (state_with [search_call, edit_call])
            (operator [True, False, True, True])) = Inr cmd"
    "length (patch_messages cmd) = length [search_call, edit_call]"
    "patch_messages cmd ! 0 =
       ToolMessage (json_dumps discarded_result) (tc_name ([search_call, edit_call] ! 0))
         (tc_id ([search_call, edit_call] ! 0))"
    "json_dumps discarded_result =
       ''{'' @ [CHR 0x22] @ ''result'' @ [CHR 0x22] @ '': '' @ [CHR 0x22]
         @ ''User did not find the results useful for the task.'' @ [CHR 0x22] @ ''}''"
    by blast
  then show ?thesis
    by (intro exI [of _ cmd]) (simp add: search_call_def)
qed

section \<open>No tool call\<close>

text \<open>
  C10. With a non-empty catalog and an assistant message that requests no tool call,
  the node goes to the assistant node with a patch whose message list is empty and
  which has no constraint entry; the world is unchanged, so the operator is not
  prompted and no tool is invoked.
\<close>

theorem no_tool_calls:
  assumes "tools \<noteq> []" and "get_last_message (messages st) = AIMessage mid c []"
  shows "\<exists>cmd. ToolNode_call get_last_message tools st w = (Inr cmd, w)
           \<and> goto cmd = ''assistant_node''
           \<and> update cmd ''messages'' = Some (Messages [])
           \<and> filter is_ToolMessage (patch_messages cmd) = []
           \<and> update cmd ''constraints'' = None
           \<and> patch_constraints cmd = []"
  using ToolNode_call_loop [where get_last_message = get_last_message and st = st, OF assms]
  by (simp add: tool_loop.simps(1) patch_messages_def patch_constraints_def)

theorem no_tool_calls_witness:
  "\<exists>cmd. ToolNode_call last [search_tool] (state_with []) (operator [True]) =
            (Inr cmd, operator [True])
         \<and> goto cmd = ''assistant_node''
         \<and> update cmd ''messages'' = Some (Messages [])
         \<and> filter is_ToolMessage (patch_messages cmd) = []
         \<and> update cmd ''constraints'' = None
         \<and> patch_constraints cmd = []"
proof -
  have h1: "[search_tool] \<noteq> []" by simp
  have h2: "last (messages (state_with [])) = AIMessage (Some ''a1'') [] []"
    by (simp add: state_with_def)
  show ?thesis
    by (rule no_tool_calls [where get_last_message = last and st = "state_with []", OF h1 h2])
qed

section \<open>An accepted call whose invocation fails\<close>

text \<open>
  C2, as the code has it. The operator accepts the call at the head of the remaining
  batch, and its name is in the catalog. If the invocation raises, the exception leaves
  the node: there is no routing decision, hence no \<open>ToolMessage\<close>, no constraint and
  no removal; the calls that follow are neither shown, prompted for nor invoked, and no
  further answer of the operator is read. If the invocation returns a value, an error
  report included, that value, or the placeholder if the operator rejects it at the
  review, is serialised into the \<open>ToolMessage\<close> of the call and the loop goes on
  with the calls that follow.
\<close>

theorem accepted_call_outcome:
  assumes "answers w = True # later" and "tbn (tc_name tc) = Some t"
  shows "(\<forall>e. ainvoke t (tc_args tc) = Inl e \<longrightarrow>
            tool_loop tbn m (tc # rest) outs w =
              (Inl (ToolException e),
               w\<lparr>answers := later,
                 trace := trace w @ [PrintPanelCall tc, Prompt (''Use '' @ tc_name tc) True,
                                     Ainvoke (tool_name t) (tc_args tc)]\<rparr>))
       \<and> (\<forall>v keep later'. ainvoke t (tc_args tc) = Inr v \<longrightarrow> later = keep # later' \<longrightarrow>
            tool_loop tbn m (tc # rest) outs w =
              tool_loop tbn m rest
                (outs @ [ToolMessage (json_dumps (if keep then v else discarded_result))
                           (tc_name tc) (tc_id tc)])
                (w\<lparr>answers := later',
                   trace := trace w @ [PrintPanelCall tc, Prompt (''Use '' @ tc_name tc) True,
                                       Ainvoke (tool_name t) (tc_args tc), PrintPanelResult v,
                                       Prompt ''Add this result to the response?'' True]\<rparr>))"
proof (intro conjI allI impI)
  fix e assume "ainvoke t (tc_args tc) = Inl e"
  with assms show "tool_loop tbn m (tc # rest) outs w =
              (Inl (ToolException e),
               w\<lparr>answers := later,
                 trace := trace w @ [PrintPanelCall tc, Prompt (''Use '' @ tc_name tc) True,
                                     Ainvoke (tool_name t) (tc_args tc)]\<rparr>)"
    by (rule tool_loop_raising_step)
next
  fix v keep later' assume r: "ainvoke t (tc_args tc) = Inr v" and l: "later = keep # later'"
  have ok: "runs_ok tbn tc" by (simp add: runs_ok_def assms(2) r)
  have ans: "answers w = True # keep # later'" using assms(1) l by simp
  show "tool_loop tbn m (tc # rest) outs w =
              tool_loop tbn m rest
                (outs @ [ToolMessage (json_dumps (if keep then v else discarded_result))
                           (tc_name tc) (tc_id tc)])
                (w\<lparr>answers := later',
                   trace := trace w @ [PrintPanelCall tc, Prompt (''Use '' @ tc_name tc) True,
                                       Ainvoke (tool_name t) (tc_args tc), PrintPanelResult v,
                                       Prompt ''Add this result to the response?'' True]\<rparr>)"
    using tool_loop_accepted_step [OF ok ans, of m rest outs]
    by (simp add: result_message_def accepted_events_def raw_result_def assms(2) r)
qed

theorem accepted_call_outcome_witness:
  "tool_loop (build_tools_by_name [broken_tool, search_tool])
     (AIMessage (Some ''a1'') [] [broken_call, search_call]) (broken_call # [search_call]) []
     (operator [True, True, True]) =
   (Inl (ToolException ''boom''),
    \<lparr>answers = [True, True],
     trace = [PrintPanelCall broken_call, Prompt ''Use broken'' True, Ainvoke ''broken'' []]\<rparr>)
   \<and> tool_loop (build_tools_by_name [broken_tool, search_tool])
       (AIMessage (Some ''a2'') [] [search_call, edit_call]) (search_call # [edit_call]) []
       (operator [True, True, False]) =
     tool_loop (build_tools_by_name [broken_tool, search_tool])
       (AIMessage (Some ''a2'') [] [search_call, edit_call]) [edit_call]
       [ToolMessage ([CHR 0x22] @ ''found x'' @ [CHR 0x22]) ''search'' ''1'']
       \<lparr>answers = [False],
        trace = [PrintPanelCall search_call, Prompt ''Use search'' True,
                 Ainvoke ''search'' [(''q'', JString ''x'')],
                 PrintPanelResult (JString ''found x''),
                 Prompt ''Add this result to the response?'' True]\<rparr>"
proof -
  have a1: "answers (operator [True, True, True]) = True # [True, True]"
    by (simp add: operator_def)
  have t1: "build_tools_by_name [broken_tool, search_tool] (tc_name broken_call) = Some broken_tool"
    by (simp add: build_tools_by_name_def broken_tool_def search_tool_def broken_call_def)
  have e1: "ainvoke broken_tool (tc_args broken_call) = Inl ''boom''"
    by (simp add: broken_tool_def)
  have a2: "answers (operator [True, True, False]) = True # [True, False]"
    by (simp add: operator_def)
  have t2: "build_tools_by_name [broken_tool, search_tool] (tc_name search_call) = Some search_tool"
    by (simp add: build_tools_by_name_def broken_tool_def search_tool_def search_call_def)
  have e2: "ainvoke search_tool (tc_args search_call) = Inr (JString ''found x'')"
    by (simp add: search_tool_def)
  have l2: "[True, False] = True # [False]" by simp
  have c1: "tool_loop (build_tools_by_name [broken_tool, search_tool])
     (AIMessage (Some ''a1'') [] [broken_call, search_call]) (broken_call # [search_call]) []
     (operator [True, True, True]) =
   (Inl (ToolException ''boom''),
    operator [True, True, True]\<lparr>answers := [True, True],
     trace := trace (operator [True, True, True])
        @ [PrintPanelCall broken_call, Prompt (''Use '' @ tc_name broken_call) True,
           Ainvoke (tool_name broken_tool) (tc_args broken_call)]\<rparr>)"
    using accepted_call_outcome [where tbn = "build_tools_by_name [broken_tool, search_tool]"
        and tc = broken_call, OF a1 t1] e1 by blast
  have c2: "tool_loop (build_tools_by_name [broken_tool, search_tool])
       (AIMessage (Some ''a2'') [] [search_call, edit_call]) (search_call # [edit_call]) []
       (operator [True, True, False]) =
     tool_loop (build_tools_by_name [broken_tool, search_tool])
       (AIMessage (Some ''a2'') [] [search_call, edit_call]) [edit_call]
       ([] @ [ToolMessage (json_dumps (if True then JString ''found x'' else discarded_result))
                (tc_name search_call) (tc_id search_call)])
       (operator [True, True, False]\<lparr>answers := [False],
          trace := trace (operator [True, True, False])
            @ [PrintPanelCall search_call, Prompt (''Use '' @ tc_name search_call) True,
               Ainvoke (tool_name search_tool) (tc_args search_call),
               PrintPanelResult (JString ''found x''),
               Prompt ''Add this result to the response?'' True]\<rparr>)"
    using accepted_call_outcome [where tbn = "build_tools_by_name [broken_tool, search_tool]"
        and tc = search_call, OF a2 t2] e2 l2 by blast
  show ?thesis
    using c1 c2
    by (simp add: operator_def broken_call_def broken_tool_def search_call_def search_tool_def
          encode_basestring_ascii_def escape_char_def)
qed

text \<open>
  The operator accepts everything; the first of two calls goes to a tool that raises.
  The node yields the exception and no routing decision, and the second call is never
  invoked.
\<close>

theorem raising_tool_counterexample:
  "fst (ToolNode_call last [broken_tool, search_tool] (state_with [broken_call, search_call])
          (operator [True, True, True, True])) = Inl (ToolException ''boom'')
   \<and> invocations (trace (snd (ToolNode_call last [broken_tool, search_tool]
          (state_with [broken_call, search_call]) (operator [True, True, True, True])))) =
       [(''broken'', [])]"
  by (simp add: ToolNode_call_def state_with_def operator_def build_tools_by_name_def
        broken_tool_def search_tool_def broken_call_def search_call_def tool_loop.simps
        prompt_for_confirmation_def invoke_tool_def emit_def invocations_def)

end
